theory Spec2Isabelle
  imports Main "HOL-Library.List_Lexorder"
begin

section \<open>Python values and exceptions\<close>

text \<open>
  The exceptions the modelled code can raise. \<open>NotImplementedError\<close> is what
  \<open>DataHolder.__setitem__\<close> raises, \<open>KeyError\<close> what \<open>DataHolder.__getitem__\<close> and a
  dictionary lookup raise, \<open>ValueError\<close> what numpy raises for a write to read-only storage,
  for ragged input and for a non 2D input of \<open>unique_rows\<close>, \<open>AttributeError\<close> what
  \<open>getattr\<close> raises, \<open>IndexError\<close> and \<open>OverflowError\<close> what numpy raises for an index
  into a 0-dimensional array and for an integer beyond the C long, \<open>TypeError\<close> what a
  call raises that passes a keyword the function does not accept. \<open>Raised n\<close> stands for
  any other exception of an underlying computation or of a numpy operation.
\<close>

datatype error =
  ValueError | KeyError | NotImplementedError | AttributeError | IndexError | OverflowError
  | TypeError | Raised nat

text \<open>A numpy array: its shape, its items in C order and its \<open>flags.writeable\<close>.\<close>

record 'a ndarray =
  shape :: "nat list"
  items :: "'a list"
  writeable :: bool

text \<open>
  The values a computation returns and the cache stores: Python's \<open>None\<close>, a numpy array,
  or any other object.
\<close>

datatype pyval = PyNone | NdArray "int ndarray" | PyObj nat

section \<open>DataHolder\<close>

type_synonym dict = "string \<rightharpoonup> pyval"

text \<open>\<open>DataHolder.__setitem__\<close>: raises whatever the holder, the key and the value are.\<close>

definition holder_setitem :: "dict \<Rightarrow> string \<Rightarrow> pyval \<Rightarrow> error + dict" where
  "holder_setitem svd key val = Inl NotImplementedError"

text \<open>\<open>DataHolder.__getitem__\<close>\<close>

definition holder_getitem :: "dict \<Rightarrow> string \<Rightarrow> error + pyval" where
  "holder_getitem svd key = (case svd key of Some v \<Rightarrow> Inr v | None \<Rightarrow> Inl KeyError)"

text \<open>\<open>DataHolder.get\<close>\<close>

definition holder_get :: "dict \<Rightarrow> string \<Rightarrow> pyval \<Rightarrow> pyval" where
  "holder_get svd key default_values = (case svd key of Some v \<Rightarrow> v | None \<Rightarrow> default_values)"

text \<open>\<open>DataHolder.keys\<close>\<close>

definition holder_keys :: "dict \<Rightarrow> string set" where
  "holder_keys svd = dom svd"

section \<open>Tracked arrays on a heap\<close>

text \<open>
  A \<open>TrackedArray\<close> object: the slots \<open>_modified\<close> and \<open>_source\<close> (the sentinel
  \<open>int(0)\<close> is \<open>None\<close>, another tracked array is its address), the flag
  \<open>flags.writeable\<close> behind the property \<open>mutable\<close>, and the storage it looks at: a
  buffer, shared by an array and its views, and the region of it that the array covers.
\<close>

record tracked =
  modified :: bool
  source :: "nat option"
  mutable :: bool
  buf :: nat
  offset :: nat
  tshape :: "nat list"

text \<open>
  The state: the objects, the buffers, the next unused address, and one holder with its
  tracked attributes (by name) and its \<open>_computed._saved\<close> dictionary. \<open>calls\<close> is the
  call counter a test puts on a computation: only a computation that counts itself
  writes it (see \<open>counted\<close> below), the wrapper does not.
\<close>

record state =
  heap :: "nat \<Rightarrow> tracked"
  bufs :: "nat \<Rightarrow> int list"
  fresh :: nat
  attrs :: "string \<rightharpoonup> nat"
  saved :: dict
  calls :: "string \<Rightarrow> nat"

text \<open>The setter of the property \<open>mutable\<close>: \<open>self.flags.writeable = value\<close>.\<close>

definition set_mutable :: "nat \<Rightarrow> bool \<Rightarrow> state \<Rightarrow> state" where
  "set_mutable a val st = st\<lparr>heap := (heap st)(a := (heap st a)\<lparr>mutable := val\<rparr>)\<rparr>"

text \<open>\<open>TrackedArray._set_modified\<close>\<close>

definition set_modified :: "nat \<Rightarrow> state \<Rightarrow> state" where
  "set_modified a st =
     (let h = (heap st)(a := (heap st a)\<lparr>modified := True\<rparr>) in
      case source (heap st a) of
        None \<Rightarrow> st\<lparr>heap := h\<rparr>
      | Some s \<Rightarrow> st\<lparr>heap := h(s := (h s)\<lparr>modified := True\<rparr>)\<rparr>)"

text \<open>The number of items of an array of the given shape, and the items a tracked array covers.\<close>

definition size_of :: "nat list \<Rightarrow> nat" where
  "size_of shp = prod_list shp"

definition data_of :: "state \<Rightarrow> nat \<Rightarrow> int list" where
  "data_of st a =
     take (size_of (tshape (heap st a))) (drop (offset (heap st a)) (bufs st (buf (heap st a))))"

definition write_data :: "nat \<Rightarrow> int list \<Rightarrow> state \<Rightarrow> state" where
  "write_data a new st =
     (let t = heap st a; b = bufs st (buf t) in
      st\<lparr>bufs := (bufs st)(buf t :=
            take (offset t) b @ new @ drop (offset t + size_of (tshape t)) b)\<rparr>)"

text \<open>\<open>TrackedArray.copy\<close>: a plain array with the items, no longer tracked.\<close>

definition copy_array :: "nat \<Rightarrow> state \<Rightarrow> int ndarray" where
  "copy_array a st = \<lparr>shape = tshape (heap st a), items = data_of st a, writeable = True\<rparr>"

text \<open>
  The sixteen mutators \<open>TrackedArray\<close> overrides, from \<open>__iadd__\<close> to \<open>__setslice__\<close>.
\<close>

datatype mutator =
  IAdd | ISub | IMul | IDiv | ITrueDiv | IMatMul | IPow | IMod | IFloorDiv
  | ILShift | IRShift | IAnd | IXor | IOr | SetItem | SetSlice

text \<open>
  What the arguments of a mutator make numpy do to writeable storage: raise (operands that
  do not broadcast, an index out of bounds, a cast that is refused), or rewrite the items,
  each from its position and its old value.
\<close>

type_synonym effect = "error + (nat \<Rightarrow> int \<Rightarrow> int)"

text \<open>
  The method of \<open>np.ndarray\<close> that \<open>super(self.__class__, self)\<close> reaches. The source uses
  f-strings, so it runs on Python 3, where \<open>np.ndarray\<close> has neither \<open>__idiv__\<close> nor
  \<open>__setslice__\<close>: looking them up raises \<open>AttributeError\<close>. The others refuse read-only
  storage with \<open>ValueError\<close> before they write.
\<close>

definition base_method :: "mutator \<Rightarrow> nat \<Rightarrow> effect \<Rightarrow> state \<Rightarrow> error option \<times> state" where
  "base_method m a eff st =
     (if m = IDiv \<or> m = SetSlice then (Some AttributeError, st)
      else if \<not> mutable (heap st a) then (Some ValueError, st)
      else case eff of
             Inl e \<Rightarrow> (Some e, st)
           | Inr g \<Rightarrow>
               (None, write_data a (map (\<lambda>(i, x). g i x) (enumerate 0 (data_of st a))) st))"

text \<open>
  Every overridden mutator has the same body: \<open>self._set_modified()\<close>, then the method of
  the base class.
\<close>

definition inplace :: "mutator \<Rightarrow> nat \<Rightarrow> effect \<Rightarrow> state \<Rightarrow> error option \<times> state" where
  "inplace m a eff st = base_method m a eff (set_modified a st)"

text \<open>
  \<open>__array_finalize__(self, obj)\<close> sets \<open>_modified\<close> to \<open>True\<close> and \<open>_source\<close> to this
  value; \<open>obj\<close> is \<open>None\<close> here when the new array is not made from a tracked array.
\<close>

definition finalize_source :: "nat option \<Rightarrow> state \<Rightarrow> nat option" where
  "finalize_source obj st =
     (case obj of
        None \<Rightarrow> None
      | Some ob \<Rightarrow> (case source (heap st ob) of None \<Rightarrow> Some ob | Some s \<Rightarrow> Some s))"

text \<open>A new object at the next unused address.\<close>

definition alloc :: "tracked \<Rightarrow> state \<Rightarrow> nat \<times> state" where
  "alloc t st = (fresh st, st\<lparr>heap := (heap st)(fresh st := t), fresh := Suc (fresh st)\<rparr>)"

text \<open>\<open>TrackedArray.view\<close> without arguments: the view of numpy, made read-only.\<close>

definition view :: "nat \<Rightarrow> state \<Rightarrow> nat \<times> state" where
  "view a st =
     alloc \<lparr>modified = True, source = finalize_source (Some a) st, mutable = False,
            buf = buf (heap st a), offset = offset (heap st a), tshape = tshape (heap st a)\<rparr> st"

text \<open>
  Reading the slice \<open>a[start:stop]\<close>. \<open>TrackedArray\<close> does not override \<open>__getitem__\<close>, and
  Python 3 never calls \<open>__getslice__\<close>, so this is \<open>np.ndarray.__getitem__\<close>: a view of the
  same class on the rows from \<open>start\<close> to \<open>stop\<close> (both clipped to the length), which goes
  through \<open>__array_finalize__\<close> and keeps the writeable flag of \<open>a\<close>. A 0-dimensional array
  cannot be sliced.
\<close>

definition getitem_slice :: "nat \<Rightarrow> nat \<Rightarrow> nat \<Rightarrow> state \<Rightarrow> (error + nat) \<times> state" where
  "getitem_slice a start stop st =
     (case tshape (heap st a) of
        [] \<Rightarrow> (Inl IndexError, st)
      | n # rest \<Rightarrow>
          (let lo = min start n; hi = max lo (min stop n);
               (s, st') = alloc \<lparr>modified = True, source = finalize_source (Some a) st,
                                 mutable = mutable (heap st a), buf = buf (heap st a),
                                 offset = offset (heap st a) + lo * size_of rest,
                                 tshape = (hi - lo) # rest\<rparr> st
           in (Inr s, st')))"

text \<open>
  \<open>TrackedArray.__getslice__\<close> as written, reached only by an explicit call of the method:
  it marks the array modified, takes the slice and makes it read-only.
\<close>

definition getslice :: "nat \<Rightarrow> nat \<Rightarrow> nat \<Rightarrow> state \<Rightarrow> (error + nat) \<times> state" where
  "getslice a start stop st =
     (case getitem_slice a start stop (set_modified a st) of
        (Inl e, st') \<Rightarrow> (Inl e, st')
      | (Inr s, st') \<Rightarrow> (Inr s, st'\<lparr>heap := (heap st')(s := (heap st' s)\<lparr>mutable := False\<rparr>)\<rparr>))"

section \<open>The factory\<close>

text \<open>Array-like input: a number, or a sequence of array-likes.\<close>

datatype array_like = Num int | Seq "array_like list"

text \<open>The shape numpy finds for nested sequences; none when they are ragged.\<close>

fun shape_of :: "array_like \<Rightarrow> nat list option" where
  "shape_of (Num v) = Some []"
| "shape_of (Seq []) = Some [0]"
| "shape_of (Seq (x # xs)) =
     (case shape_of x of
        None \<Rightarrow> None
      | Some shp \<Rightarrow>
          if list_all (\<lambda>y. shape_of y = Some shp) xs then Some (Suc (length xs) # shp) else None)"

fun flatten :: "array_like \<Rightarrow> int list" where
  "flatten (Num v) = [v]"
| "flatten (Seq xs) = concat (map flatten xs)"

text \<open>
  A dtype is the number of bytes of a signed integer type (floating point dtypes are left
  out). \<open>fits_dtype w v\<close>: the integer \<open>v\<close> is a value of the dtype. \<open>cast_item w v\<close>: the
  value the C cast to the dtype gives, which wraps around.
\<close>

definition fits_dtype :: "nat \<Rightarrow> int \<Rightarrow> bool" where
  "fits_dtype w v \<longleftrightarrow> - (2 ^ (8 * w - 1)) \<le> v \<and> v < 2 ^ (8 * w - 1)"

definition cast_item :: "nat \<Rightarrow> int \<Rightarrow> int" where
  "cast_item w v = (v + 2 ^ (8 * w - 1)) mod 2 ^ (8 * w) - 2 ^ (8 * w - 1)"

text \<open>
  \<open>np.ascontiguousarray(array, dtype=dtype)\<close> on nested sequences of Python integers, as
  numpy 1.24 to 1.26 does it (the versions whose \<open>np.unique\<close> is modelled below): a new
  plain array of at least one dimension. Ragged input is refused with \<open>ValueError\<close>.
  Without a dtype numpy picks one that holds the input. With a dtype an integer goes
  through a (64-bit) C long, which refuses it with \<open>OverflowError\<close> when it is too large,
  and is then cast to the dtype, wrapping around if it does not fit.
\<close>

definition np_ascontiguousarray :: "array_like \<Rightarrow> nat option \<Rightarrow> error + int ndarray" where
  "np_ascontiguousarray array dtype =
     (case shape_of array of
        None \<Rightarrow> Inl ValueError
      | Some shp \<Rightarrow>
          (case dtype of
             None \<Rightarrow>
               Inr \<lparr>shape = (if shp = [] then [1] else shp), items = flatten array,
                    writeable = True\<rparr>
           | Some w \<Rightarrow>
               if \<not> list_all (fits_dtype 8) (flatten array) then Inl OverflowError
               else Inr \<lparr>shape = (if shp = [] then [1] else shp),
                         items = map (cast_item w) (flatten array), writeable = True\<rparr>))"

text \<open>What a name can be bound to: a plain \<open>np.ndarray\<close>, or a \<open>TrackedArray\<close> on the heap.\<close>

datatype pyobj = PlainArray "int ndarray" | TrackedRef nat

text \<open>
  \<open>make_tracked_array\<close>. With \<open>copy\<close>, \<open>tracked.copy().view(TrackedArray)\<close> is a new tracked
  object on a new buffer, finalized from a plain array; without, the plain array is
  returned as it is. The assertion holds for both: they are C-contiguous.
\<close>

definition make_tracked_array ::
  "array_like option \<Rightarrow> nat option \<Rightarrow> bool \<Rightarrow> state \<Rightarrow> (error + pyobj) \<times> state" where
  "make_tracked_array array dtype copy st =
     (case np_ascontiguousarray (case array of None \<Rightarrow> Seq [] | Some a \<Rightarrow> a) dtype of
        Inl e \<Rightarrow> (Inl e, st)
      | Inr tracked \<Rightarrow>
          if copy
          then (let (a, st') =
                      alloc \<lparr>modified = True, source = finalize_source None st, mutable = True,
                             buf = fresh st, offset = 0, tshape = shape tracked\<rparr>
                        (st\<lparr>bufs := (bufs st)(fresh st := items tracked)\<rparr>)
                in (Inr (TrackedRef a), st'))
          else (Inr (PlainArray tracked), st))"

section \<open>ComputedData\<close>

text \<open>
  The class attributes \<open>_depends\<close> and \<open>_inv_depends\<close>. Both start as \<open>None\<close> and become
  a dictionary at the first registration; no lookup happens before, so \<open>None\<close> is the
  empty map here.
\<close>

record registry =
  depends :: "string \<rightharpoonup> string list"
  inv_depends :: "string \<rightharpoonup> string list"

definition empty_registry :: registry where
  "empty_registry = \<lparr>depends = Map.empty, inv_depends = Map.empty\<rparr>"

text \<open>The list under a key, a new empty list when \<open>get(key, None) is None\<close>.\<close>

definition get_list :: "(string \<rightharpoonup> string list) \<Rightarrow> string \<Rightarrow> string list" where
  "get_list m k = (case m k of None \<Rightarrow> [] | Some l \<Rightarrow> l)"

text \<open>The body of \<open>for vn in var_names\<close>: \<open>cls._inv_depends[vn].append(func.__name__)\<close>.\<close>

definition add_inverse ::
  "string \<Rightarrow> string \<Rightarrow> (string \<rightharpoonup> string list) \<Rightarrow> (string \<rightharpoonup> string list)" where
  "add_inverse fname vn m = m(vn \<mapsto> get_list m vn @ [fname])"

text \<open>The registration part of \<open>depends_on(var_names)(func)\<close>, \<open>fname\<close> is \<open>func.__name__\<close>.\<close>

definition depends_on :: "registry \<Rightarrow> string list \<Rightarrow> string \<Rightarrow> registry" where
  "depends_on reg var_names fname =
     \<lparr>depends = (depends reg)(fname \<mapsto> get_list (depends reg) fname @ var_names),
      inv_depends = fold (add_inverse fname) var_names (inv_depends reg)\<rparr>"

text \<open>A class whose methods are decorated one after the other.\<close>

definition register_all :: "(string \<times> string list) list \<Rightarrow> registry" where
  "register_all regs = fold (\<lambda>(fname, var_names) reg. depends_on reg var_names fname) regs empty_registry"

text \<open>\<open>self._computed._saved.get(name, None)\<close>\<close>

definition saved_get :: "dict \<Rightarrow> string \<Rightarrow> pyval" where
  "saved_get svd name = holder_get svd name PyNone"

text \<open>\<open>for inv in cls._inv_depends[dependee_str]: self._computed._saved[inv] = None\<close>\<close>

definition evict :: "string list \<Rightarrow> dict \<Rightarrow> dict" where
  "evict invs svd = fold (\<lambda>inv s. s(inv \<mapsto> PyNone)) invs svd"

text \<open>
  The first loop of \<open>compute_or_return_saved\<close> over the dependees. An exception leaves
  the entries already evicted as they are.
\<close>

fun sweep :: "registry \<Rightarrow> string list \<Rightarrow> state \<Rightarrow> error option \<times> state" where
  "sweep reg [] st = (None, st)"
| "sweep reg (d # ds) st =
     (case attrs st d of
        None \<Rightarrow> (Some AttributeError, st)
      | Some a \<Rightarrow>
          if modified (heap st a)
          then (case inv_depends reg d of
                  None \<Rightarrow> (Some KeyError, st)
                | Some invs \<Rightarrow> sweep reg ds (st\<lparr>saved := evict invs (saved st)\<rparr>))
          else sweep reg ds st)"

text \<open>The last loop: \<open>dependee._modified = False\<close> for each dependee.\<close>

fun clear_modified :: "string list \<Rightarrow> state \<Rightarrow> error option \<times> state" where
  "clear_modified [] st = (None, st)"
| "clear_modified (d # ds) st =
     (case attrs st d of
        None \<Rightarrow> (Some AttributeError, st)
      | Some a \<Rightarrow>
          clear_modified ds (st\<lparr>heap := (heap st)(a := (heap st a)\<lparr>modified := False\<rparr>)\<rparr>))"

text \<open>\<open>if isinstance(computed, np.ndarray): computed.flags.writeable = False\<close>\<close>

definition freeze :: "pyval \<Rightarrow> pyval" where
  "freeze v = (case v of NdArray a \<Rightarrow> NdArray (a\<lparr>writeable := False\<rparr>) | _ \<Rightarrow> v)"

text \<open>
  The keyword arguments of a call of a wrapped operation: each of the two flags is given
  or not. \<open>kwargs.get(key, False)\<close> reads a flag.
\<close>

record kwargs =
  kw_recompute :: "bool option"
  kw_return_saved :: "bool option"

definition no_kwargs :: kwargs where
  "no_kwargs = \<lparr>kw_recompute = None, kw_return_saved = None\<rparr>"

definition kw_get :: "bool option \<Rightarrow> bool" where
  "kw_get flag = (case flag of None \<Rightarrow> False | Some b \<Rightarrow> b)"

text \<open>
  An underlying computation \<open>func\<close>: it is called with the holder and with the keyword
  arguments of the call, it can do anything to the state (evaluate other operations of
  the holder, write attributes), and it returns a value or raises.
\<close>

type_synonym computation = "kwargs \<Rightarrow> state \<Rightarrow> (error + pyval) \<times> state"

text \<open>
  A computation that only reads the holder, with a call counter on it: each run adds one
  to its counter and changes nothing else.
\<close>

definition counted :: "string \<Rightarrow> (kwargs \<Rightarrow> state \<Rightarrow> error + pyval) \<Rightarrow> computation" where
  "counted name body kw st =
     (body kw st, st\<lparr>calls := (calls st)(name := Suc (calls st name))\<rparr>)"


text \<open>
  The wrapper \<open>compute_or_return_saved\<close> of the operation \<open>name\<close> with the underlying
  computation \<open>func\<close>, called with the keyword arguments \<open>kw\<close>, which it reads and passes
  on to \<open>func\<close> as they are. The result is the value returned or the exception raised,
  with the state left behind.
\<close>

definition compute_or_return_saved ::
  "registry \<Rightarrow> string \<Rightarrow> computation \<Rightarrow> kwargs \<Rightarrow> state \<Rightarrow> (error + pyval) \<times> state" where
  "compute_or_return_saved reg name func kw st =
     (let recompute = kw_get (kw_recompute kw); return_saved = kw_get (kw_return_saved kw) in
      if return_saved \<and> saved_get (saved st) name \<noteq> PyNone \<and> \<not> recompute
      then (Inr (saved_get (saved st) name), st)
      else
        (case depends reg name of
           None \<Rightarrow> (Inl KeyError, st)
         | Some deps \<Rightarrow>
            (case sweep reg deps st of
               (Some e, st1) \<Rightarrow> (Inl e, st1)
             | (None, st1) \<Rightarrow>
                 if saved_get (saved st1) name \<noteq> PyNone \<and> \<not> recompute
                 then (Inr (saved_get (saved st1) name), st1)
                 else
                   (case func kw st1 of
                      (Inl e, st2) \<Rightarrow> (Inl e, st2)
                    | (Inr computed, st2) \<Rightarrow>
                       (let c = freeze computed;
                            st3 = st2\<lparr>saved := (saved st2)(name \<mapsto> c)\<rparr>
                        in case clear_modified deps st3 of
                             (Some e, st4) \<Rightarrow> (Inl e, st4)
                           | (None, st4) \<Rightarrow> (Inr c, st4))))))"

section \<open>unique\_rows\<close>

text \<open>
  What \<open>unique_rows\<close> can be given: \<open>None\<close>, a C-contiguous \<open>np.ndarray\<close> of integers with
  the width of its dtype, or nested sequences of Python integers.
\<close>

datatype array_input = NoneInput | ArrayInput nat "int ndarray" | NestedInput array_like

text \<open>\<open>array.astype(dtype)\<close>: a new array, each item cast to the dtype.\<close>

definition astype :: "nat \<Rightarrow> int ndarray \<Rightarrow> int ndarray" where
  "astype w arr = \<lparr>shape = shape arr, items = map (cast_item w) (items arr), writeable = True\<rparr>"

text \<open>
  \<open>make_c_contiguous(array, dtype)\<close>: \<open>None\<close> for \<open>None\<close>; a C-contiguous array as it is, or
  cast when its dtype is another one; \<open>np.ascontiguousarray\<close> for anything else.
\<close>

definition make_c_contiguous :: "array_input \<Rightarrow> nat option \<Rightarrow> error + int ndarray option" where
  "make_c_contiguous array dtype =
     (case array of
        NoneInput \<Rightarrow> Inr None
      | ArrayInput dt arr \<Rightarrow>
          (case dtype of
             Some w \<Rightarrow> if dt \<noteq> w then Inr (Some (astype w arr)) else Inr (Some arr)
           | None \<Rightarrow> Inr (Some arr))
      | NestedInput al \<Rightarrow>
          (case np_ascontiguousarray al dtype of Inl e \<Rightarrow> Inl e | Inr arr \<Rightarrow> Inr (Some arr)))"

text \<open>
  The bytes of an item of a dtype of \<open>w\<close> bytes, in two's complement, least significant
  first (a little-endian platform).
\<close>

definition item_bytes :: "nat \<Rightarrow> int \<Rightarrow> nat list" where
  "item_bytes w v = map (\<lambda>k. nat ((v div 256 ^ k) mod 256)) [0..<w]"

text \<open>A row under \<open>in_arr.view("|S...")\<close>: the bytes of its items, one string per row.\<close>

definition row_view :: "nat \<Rightarrow> int list \<Rightarrow> nat list" where
  "row_view w row = concat (map (item_bytes w) row)"

definition rows_of :: "nat \<Rightarrow> nat \<Rightarrow> 'a list \<Rightarrow> 'a list list" where
  "rows_of n m xs = map (\<lambda>i. take m (drop (i * m) xs)) [0..<n]"

fun first_index :: "'a list \<Rightarrow> 'a \<Rightarrow> nat" where
  "first_index [] k = 0"
| "first_index (x # xs) k = (if x = k then 0 else Suc (first_index xs k))"

text \<open>
  \<open>np.unique(ar, return_index=True, return_inverse=True, return_counts=True)\<close> on a
  flattened array, as numpy 1.x documents it: the sorted distinct values, for each the
  index of its first occurrence, for each element of \<open>ar\<close> its position among the distinct
  values, and for each distinct value its number of occurrences. Strings of one width
  are compared byte by byte.
\<close>

definition np_unique :: "'k::linorder list \<Rightarrow> 'k list \<times> nat list \<times> nat list \<times> nat list" where
  "np_unique ar =
     (let u = sort (remdups ar)
      in (u, map (first_index ar) u, map (first_index u) ar, map (count_list ar) u))"

text \<open>
  An entry of the list \<open>unique_stuff\<close>: the array of byte strings that \<open>np.unique\<close>
  returns first, a 2D array by its rows, or an array of indices or counts.
\<close>

datatype 'a column = ByteStrings "nat list list" | RowArray "'a list list" | IndexArray "nat list"

text \<open>
  \<open>unique_rows\<close>. \<open>int_dtype\<close> is \<open>settings.INT_DTYPE\<close>, which is not part of the sources:
  the number of bytes of the default integer dtype. \<open>None\<close> has no attribute \<open>shape\<close>.
  The string dtype of the view is \<open>in_arr.itemsize * in_arr.shape[1]\<close> bytes wide, and
  numpy refuses a view under a string dtype of width 0, which is what an array without
  columns asks for. \<open>unique_stuff.pop(1)\<close> drops the second entry.
\<close>

definition unique_rows ::
  "nat \<Rightarrow> array_input \<Rightarrow> bool \<Rightarrow> bool \<Rightarrow> bool \<Rightarrow> nat option \<Rightarrow> error + int column list" where
  "unique_rows int_dtype in_arr return_index return_inverse return_counts dtype_name =
     (let dtype_name = (case dtype_name of None \<Rightarrow> int_dtype | Some d \<Rightarrow> d) in
      case make_c_contiguous in_arr (Some dtype_name) of
        Inl e \<Rightarrow> Inl e
      | Inr None \<Rightarrow> Inl AttributeError
      | Inr (Some in_arr) \<Rightarrow>
          if length (shape in_arr) \<noteq> 2 then Inl ValueError
          else if dtype_name * (shape in_arr ! 1) = 0 then Inl ValueError
          else
            (let rows = rows_of (shape in_arr ! 0) (shape in_arr ! 1) (items in_arr);
                 (u, idx, inv, cnt) = np_unique (map (row_view dtype_name) rows);
                 unique_stuff =
                   [ByteStrings u, IndexArray idx]
                     @ (if return_inverse then [IndexArray inv] else [])
                     @ (if return_counts then [IndexArray cnt] else []);
                 unique_stuff = unique_stuff[0 := RowArray (map (\<lambda>i. rows ! i) idx)]
             in Inr (if return_index then unique_stuff
                     else hd unique_stuff # drop 2 unique_stuff)))"

text \<open>
  What registration establishes: every dependee of an operation has an entry in
  \<open>_inv_depends\<close>, and the operation is in it.
\<close>

definition wf_registry :: "registry \<Rightarrow> bool" where
  "wf_registry reg \<longleftrightarrow>
     (\<forall>f ds. depends reg f = Some ds \<longrightarrow>
        (\<forall>d\<in>set ds. \<exists>invs. inv_depends reg d = Some invs \<and> f \<in> set invs))"

section \<open>Example inputs\<close>

text \<open>A state without objects, with a holder that has no attribute and nothing saved.\<close>

definition init_state :: state where
  "init_state =
     \<lparr>heap = (\<lambda>_. \<lparr>modified = False, source = None, mutable = False, buf = 0, offset = 0,
                    tshape = []\<rparr>),
      bufs = (\<lambda>_. []), fresh = 0, attrs = Map.empty, saved = Map.empty, calls = (\<lambda>_. 0)\<rparr>"

text \<open>The state after \<open>make_tracked_array([1, 2, 3])\<close>: the array is object 0.\<close>

definition ex_made :: state where
  "ex_made = snd (make_tracked_array (Some (Seq [Num 1, Num 2, Num 3])) None True init_state)"

text \<open>A holder whose attribute \<open>x\<close> is that array.\<close>

definition ex_holder :: state where
  "ex_holder = ex_made\<lparr>attrs := [''x'' \<mapsto> 0]\<rparr>"


text \<open>A holder whose attribute \<open>x\<close> is a view (object 1) of that array.\<close>

definition ex_view_holder :: state where
  "ex_view_holder = (snd (view 0 ex_made))\<lparr>attrs := [''x'' \<mapsto> 1]\<rparr>"

text \<open>A class with the operations \<open>f\<close> and \<open>g\<close>, both decorated with \<open>depends_on(["x"])\<close>.\<close>

definition ex_reg :: registry where
  "ex_reg = register_all [(''f'', [''x'']), (''g'', [''x''])]"

text \<open>Computations that only read the holder; they accept any keyword.\<close>

definition ex_f :: computation where
  "ex_f = counted ''f'' (\<lambda>kw st. Inr (PyObj 7))"

definition ex_g :: computation where
  "ex_g = counted ''g'' (\<lambda>kw st. Inr (PyObj 8))"

text \<open>A computation of \<open>f\<close> that returns \<open>None\<close>.\<close>

definition ex_none :: computation where
  "ex_none = counted ''f'' (\<lambda>kw st. Inr PyNone)"

text \<open>The effect of \<open>+= 1\<close> and of \<open>[0] = 9\<close> on writeable storage.\<close>

definition ex_incr :: effect where
  "ex_incr = Inr (\<lambda>i x. x + 1)"

definition ex_assign :: effect where
  "ex_assign = Inr (\<lambda>i x. if i = 0 then 9 else x)"

text \<open>
  A computation of \<open>g\<close> whose body evaluates \<open>f\<close>, as \<open>self.f()\<close>, before it returns its
  own value.
\<close>

definition ex_g_nested :: computation where
  "ex_g_nested kw st =
     (case compute_or_return_saved ex_reg ''f'' ex_f no_kwargs
             (st\<lparr>calls := (calls st)(''g'' := Suc (calls st ''g''))\<rparr>) of
        (Inl e, st') \<Rightarrow> (Inl e, st')
      | (Inr v, st') \<Rightarrow> (Inr (PyObj 8), st'))"

text \<open>The holder after \<open>f()\<close>, then \<open>x += 1\<close>, then \<open>g()\<close> with that body.\<close>

definition ex_nested_run :: state where
  "ex_nested_run =
     snd (compute_or_return_saved ex_reg ''g'' ex_g_nested no_kwargs
       (snd (inplace IAdd 0 ex_incr
         (snd (compute_or_return_saved ex_reg ''f'' ex_f no_kwargs ex_holder)))))"

text \<open>The holder after one call of an \<open>f\<close> that returns \<open>None\<close>.\<close>

definition ex_none_once :: state where
  "ex_none_once = snd (compute_or_return_saved ex_reg ''f'' ex_none no_kwargs ex_holder)"

text \<open>The call \<open>f(return_saved=True)\<close>.\<close>

definition kw_saved :: kwargs where
  "kw_saved = \<lparr>kw_recompute = None, kw_return_saved = Some True\<rparr>"



text \<open>A 64-bit array with the row \<open>[2 ** 32 + 1, 0]\<close>, and a 32-bit array without columns.\<close>

definition ex_wide :: array_input where
  "ex_wide = ArrayInput 8 \<lparr>shape = [1, 2], items = [4294967297, 0], writeable = True\<rparr>"

definition ex_no_columns :: array_input where
  "ex_no_columns = ArrayInput 4 \<lparr>shape = [2, 0], items = [], writeable = True\<rparr>"

section \<open>The sweep and the clearing loop\<close>

lemma evict_eq: "evict invs svd k = (if k \<in> set invs then Some PyNone else svd k)"
  unfolding evict_def by (induction invs arbitrary: svd) auto

lemma evict_cases: "evict invs svd k = svd k \<or> evict invs svd k = Some PyNone"
  by (simp add: evict_eq)

lemma sweep_frame:
  "heap (snd (sweep reg ds st)) = heap st \<and> attrs (snd (sweep reg ds st)) = attrs st \<and>
   calls (snd (sweep reg ds st)) = calls st \<and> bufs (snd (sweep reg ds st)) = bufs st \<and>
   fresh (snd (sweep reg ds st)) = fresh st"
  by (induction reg ds st rule: sweep.induct) (auto split: option.splits)

lemma sweep_saved_cases:
  "saved (snd (sweep reg ds st)) k = saved st k \<or> saved (snd (sweep reg ds st)) k = Some PyNone"
proof (induction reg ds st rule: sweep.induct)
  case (1 reg st) then show ?case by simp
next
  case (2 reg d ds st)
  show ?case
  proof (cases "attrs st d")
    case None then show ?thesis by simp
  next
    case (Some a)
    show ?thesis
    proof (cases "modified (heap st a)")
      case False
      then show ?thesis using Some 2(2) by simp
    next
      case True
      show ?thesis
      proof (cases "inv_depends reg d")
        case None then show ?thesis using Some True by simp
      next
        case (Some invs)
        from 2(1) [OF \<open>attrs st d = Some a\<close> True Some]
        have "saved (snd (sweep reg ds (st\<lparr>saved := evict invs (saved st)\<rparr>))) k = evict invs (saved st) k
            \<or> saved (snd (sweep reg ds (st\<lparr>saved := evict invs (saved st)\<rparr>))) k = Some PyNone"
          by simp
        then show ?thesis
          using \<open>attrs st d = Some a\<close> True Some evict_cases [of invs "saved st" k] by auto
      qed
    qed
  qed
qed

lemma sweep_keeps_none:
  "saved st k = Some PyNone \<Longrightarrow> saved (snd (sweep reg ds st)) k = Some PyNone"
  using sweep_saved_cases [of reg ds st k] by auto

lemma sweep_evicts:
  "fst (sweep reg ds st) = None \<Longrightarrow> d \<in> set ds \<Longrightarrow> attrs st d = Some a \<Longrightarrow>
   modified (heap st a) \<Longrightarrow> inv_depends reg d = Some invs \<Longrightarrow> k \<in> set invs \<Longrightarrow>
   saved (snd (sweep reg ds st)) k = Some PyNone"
proof (induction reg ds st rule: sweep.induct)
  case (1 reg st) then show ?case by simp
next
  case (2 reg d' ds st)
  show ?case
  proof (cases "d' = d")
    case True
    with 2 have "saved (st\<lparr>saved := evict invs (saved st)\<rparr>) k = Some PyNone"
      by (simp add: evict_eq)
    then have "saved (snd (sweep reg ds (st\<lparr>saved := evict invs (saved st)\<rparr>))) k = Some PyNone"
      by (rule sweep_keeps_none)
    then show ?thesis using True 2 by simp
  next
    case False
    with 2 show ?thesis by (auto split: option.splits if_splits)
  qed
qed

lemma sweep_ok:
  "\<forall>d\<in>set ds. attrs st d \<noteq> None \<and> inv_depends reg d \<noteq> None \<Longrightarrow> fst (sweep reg ds st) = None"
  by (induction reg ds st rule: sweep.induct) (auto split: option.splits)

lemma clear_frame:
  "saved (snd (clear_modified ds st)) = saved st \<and> attrs (snd (clear_modified ds st)) = attrs st \<and>
   calls (snd (clear_modified ds st)) = calls st \<and> bufs (snd (clear_modified ds st)) = bufs st \<and>
   fresh (snd (clear_modified ds st)) = fresh st"
  by (induction ds st rule: clear_modified.induct) (auto split: option.splits)

lemma clear_ok:
  "\<forall>d\<in>set ds. attrs st d \<noteq> None \<Longrightarrow> fst (clear_modified ds st) = None"
  by (induction ds st rule: clear_modified.induct) (auto split: option.splits)



section \<open>Registration\<close>

lemma inv_fold_mono:
  "m v = Some l \<Longrightarrow> \<exists>l'. fold (add_inverse f) vs m v = Some l' \<and> set l \<subseteq> set l'"
proof (induction vs arbitrary: m l)
  case Nil then show ?case by simp
next
  case (Cons x xs)
  have "\<exists>l1. add_inverse f x m v = Some l1 \<and> set l \<subseteq> set l1"
    using Cons.prems by (auto simp: get_list_def add_inverse_def)
  then obtain l1 where l1: "add_inverse f x m v = Some l1" "set l \<subseteq> set l1" by blast
  from Cons.IH [of "add_inverse f x m" l1] l1(1) obtain l' where
    "fold (add_inverse f) xs (add_inverse f x m) v = Some l'" "set l1 \<subseteq> set l'"
    by blast
  with l1(2) show ?case by auto
qed

lemma inv_fold_adds:
  "v \<in> set vs \<Longrightarrow> \<exists>l'. fold (add_inverse f) vs m v = Some l' \<and> f \<in> set l'"
proof (induction vs arbitrary: m)
  case Nil then show ?case by simp
next
  case (Cons x xs)
  show ?case
  proof (cases "v = x")
    case True
    have "add_inverse f x m v = Some (get_list m x @ [f])" using True by (simp add: add_inverse_def)
    from inv_fold_mono [of "add_inverse f x m" v "get_list m x @ [f]" f xs] this
    show ?thesis by auto
  next
    case False
    with Cons.prems have "v \<in> set xs" by simp
    from Cons.IH [OF this, of "add_inverse f x m"] show ?thesis by simp
  qed
qed

lemma wf_empty: "wf_registry empty_registry"
  by (simp add: wf_registry_def empty_registry_def)

lemma wf_depends_on: "wf_registry reg \<Longrightarrow> wf_registry (depends_on reg vs f)"
  unfolding wf_registry_def
proof (intro allI impI ballI)
  fix g ds d
  assume wf: "\<forall>f ds. depends reg f = Some ds \<longrightarrow>
        (\<forall>d\<in>set ds. \<exists>invs. inv_depends reg d = Some invs \<and> f \<in> set invs)"
    and dep: "depends (depends_on reg vs f) g = Some ds" and d: "d \<in> set ds"
  have invd: "inv_depends (depends_on reg vs f) =
      fold (add_inverse f) vs (inv_depends reg)"
    by (simp add: depends_on_def)
  have old: "\<And>h hs. depends reg h = Some hs \<Longrightarrow> d \<in> set hs \<Longrightarrow>
      \<exists>invs. inv_depends (depends_on reg vs f) d = Some invs \<and> h \<in> set invs"
  proof -
    fix h hs assume "depends reg h = Some hs" "d \<in> set hs"
    with wf obtain invs where i: "inv_depends reg d = Some invs" "h \<in> set invs" by blast
    from inv_fold_mono [of "inv_depends reg" d invs f vs] i show
      "\<exists>invs. inv_depends (depends_on reg vs f) d = Some invs \<and> h \<in> set invs"
      unfolding invd by auto
  qed
  show "\<exists>invs. inv_depends (depends_on reg vs f) d = Some invs \<and> g \<in> set invs"
  proof (cases "g = f")
    case False
    with dep have "depends reg g = Some ds" by (simp add: depends_on_def)
    from old [OF this d] show ?thesis .
  next
    case True
    with dep have ds: "ds = get_list (depends reg) f @ vs" by (simp add: depends_on_def)
    show ?thesis
    proof (cases "d \<in> set vs")
      case True
      from inv_fold_adds [OF this, of f "inv_depends reg"] show ?thesis
        unfolding invd using \<open>g = f\<close> by simp
    next
      case False
      with ds d have "d \<in> set (get_list (depends reg) f)" by simp
      then obtain hs where "depends reg f = Some hs" "d \<in> set hs"
        by (cases "depends reg f") (auto simp: get_list_def)
      from old [OF this] show ?thesis using \<open>g = f\<close> by simp
    qed
  qed
qed

lemma depends_on_mono:
  "depends reg g = Some ds \<Longrightarrow>
   \<exists>ds'. depends (depends_on reg vs f) g = Some ds' \<and> set ds \<subseteq> set ds'"
  by (auto simp: depends_on_def get_list_def)

lemma depends_on_adds:
  "\<exists>ds'. depends (depends_on reg vs f) f = Some ds' \<and> set vs \<subseteq> set ds'"
  by (auto simp: depends_on_def)

lemma fold_register_wf:
  "wf_registry reg \<Longrightarrow>
   wf_registry (fold (\<lambda>(fname, var_names) reg. depends_on reg var_names fname) regs reg)"
  by (induction regs arbitrary: reg) (auto simp: wf_depends_on)

lemma fold_register_mono:
  "depends reg g = Some ds \<Longrightarrow>
   \<exists>ds'. depends (fold (\<lambda>(fname, var_names) reg. depends_on reg var_names fname) regs reg) g = Some ds'
      \<and> set ds \<subseteq> set ds'"
proof (induction regs arbitrary: reg ds)
  case Nil then show ?case by simp
next
  case (Cons r regs)
  obtain f vs where r: "r = (f, vs)" by (cases r)
  from depends_on_mono [OF Cons.prems, of vs f] obtain d1 where
    d1: "depends (depends_on reg vs f) g = Some d1" "set ds \<subseteq> set d1" by blast
  from Cons.IH [OF d1(1)] d1(2) show ?case using r by auto
qed

lemma fold_register_adds:
  "(f, vs) \<in> set regs \<Longrightarrow>
   \<exists>ds'. depends (fold (\<lambda>(fname, var_names) reg. depends_on reg var_names fname) regs reg) f = Some ds'
      \<and> set vs \<subseteq> set ds'"
proof (induction regs arbitrary: reg)
  case Nil then show ?case by simp
next
  case (Cons r regs)
  show ?case
  proof (cases "r = (f, vs)")
    case True
    from depends_on_adds [of reg vs f] obtain d1 where
      d1: "depends (depends_on reg vs f) f = Some d1" "set vs \<subseteq> set d1" by blast
    from fold_register_mono [OF d1(1), of regs] d1(2) show ?thesis using True by auto
  next
    case False
    with Cons.prems have "(f, vs) \<in> set regs" by simp
    from Cons.IH [OF this] show ?thesis by (cases r) simp
  qed
qed

lemma register_all_wf: "wf_registry (register_all regs)"
  unfolding register_all_def by (rule fold_register_wf [OF wf_empty])

lemma register_all_registered:
  "(f, vs) \<in> set regs \<Longrightarrow> \<exists>ds. depends (register_all regs) f = Some ds \<and> set vs \<subseteq> set ds"
  unfolding register_all_def by (rule fold_register_adds)

section \<open>The wrapper, branch by branch\<close>

lemma sweep_ok_resolves:
  "fst (sweep reg ds st) = None \<Longrightarrow> \<forall>d\<in>set ds. attrs st d \<noteq> None"
  by (induction reg ds st rule: sweep.induct) (auto split: option.splits if_splits)


lemma compute_hit:
  assumes "depends reg name = Some deps" "fst (sweep reg deps st) = None"
    "\<not> (kw_get (kw_return_saved kw) \<and> saved_get (saved st) name \<noteq> PyNone
        \<and> \<not> kw_get (kw_recompute kw))"
    "saved_get (saved (snd (sweep reg deps st))) name \<noteq> PyNone" "\<not> kw_get (kw_recompute kw)"
  shows "compute_or_return_saved reg name func kw st
     = (Inr (saved_get (saved (snd (sweep reg deps st))) name), snd (sweep reg deps st))"
  using assms unfolding compute_or_return_saved_def
  by (cases "sweep reg deps st") auto

lemma compute_raises:
  assumes "depends reg name = Some deps" "fst (sweep reg deps st) = None"
    "\<not> (kw_get (kw_return_saved kw) \<and> saved_get (saved st) name \<noteq> PyNone
        \<and> \<not> kw_get (kw_recompute kw))"
    "saved_get (saved (snd (sweep reg deps st))) name = PyNone \<or> kw_get (kw_recompute kw)"
    "func kw (snd (sweep reg deps st)) = (Inl e, st2)"
  shows "compute_or_return_saved reg name func kw st = (Inl e, st2)"
proof -
  obtain st1 where sw: "sweep reg deps st = (None, st1)"
    using assms(2) by (cases "sweep reg deps st") auto
  show ?thesis
    using assms sw unfolding compute_or_return_saved_def Let_def by auto
qed

lemma compute_computes:
  assumes "depends reg name = Some deps" "fst (sweep reg deps st) = None"
    "\<not> (kw_get (kw_return_saved kw) \<and> saved_get (saved st) name \<noteq> PyNone
        \<and> \<not> kw_get (kw_recompute kw))"
    "saved_get (saved (snd (sweep reg deps st))) name = PyNone \<or> kw_get (kw_recompute kw)"
    "func kw (snd (sweep reg deps st)) = (Inr v, st2)"
    "\<forall>d\<in>set deps. attrs st2 d \<noteq> None"
  shows "compute_or_return_saved reg name func kw st
     = (Inr (freeze v),
        snd (clear_modified deps (st2\<lparr>saved := (saved st2)(name \<mapsto> freeze v)\<rparr>)))"
proof -
  obtain st1 where sw: "sweep reg deps st = (None, st1)"
    using assms(2) by (cases "sweep reg deps st") auto
  let ?st3 = "st2\<lparr>saved := (saved st2)(name \<mapsto> freeze v)\<rparr>"
  have "\<forall>d\<in>set deps. attrs ?st3 d \<noteq> None" using assms(6) by simp
  then have "fst (clear_modified deps ?st3) = None" by (rule clear_ok)
  then obtain st4 where cl: "clear_modified deps ?st3 = (None, st4)"
    by (cases "clear_modified deps ?st3") auto
  show ?thesis
    using assms sw cl unfolding compute_or_return_saved_def Let_def by auto
qed

text \<open>The wrapper around a computation that only reads the holder.\<close>

lemma counted_raises:
  assumes "depends reg name = Some deps" "fst (sweep reg deps st) = None"
    "\<not> (kw_get (kw_return_saved kw) \<and> saved_get (saved st) name \<noteq> PyNone
        \<and> \<not> kw_get (kw_recompute kw))"
    "saved_get (saved (snd (sweep reg deps st))) name = PyNone \<or> kw_get (kw_recompute kw)"
    "body kw (snd (sweep reg deps st)) = Inl e"
  shows "compute_or_return_saved reg name (counted n body) kw st
     = (Inl e, (snd (sweep reg deps st))\<lparr>calls := (calls st)(n := Suc (calls st n))\<rparr>)"
proof -
  have "counted n body kw (snd (sweep reg deps st))
      = (Inl e, (snd (sweep reg deps st))\<lparr>calls := (calls st)(n := Suc (calls st n))\<rparr>)"
    using assms(5) sweep_frame [of reg deps st] by (simp add: counted_def)
  from compute_raises [where func = "counted n body", OF assms(1-4) this] show ?thesis .
qed

lemma counted_computes:
  assumes "depends reg name = Some deps" "fst (sweep reg deps st) = None"
    "\<not> (kw_get (kw_return_saved kw) \<and> saved_get (saved st) name \<noteq> PyNone
        \<and> \<not> kw_get (kw_recompute kw))"
    "saved_get (saved (snd (sweep reg deps st))) name = PyNone \<or> kw_get (kw_recompute kw)"
    "body kw (snd (sweep reg deps st)) = Inr v"
  shows "compute_or_return_saved reg name (counted n body) kw st
     = (Inr (freeze v),
        snd (clear_modified deps ((snd (sweep reg deps st))
          \<lparr>calls := (calls st)(n := Suc (calls st n)),
            saved := (saved (snd (sweep reg deps st)))(name \<mapsto> freeze v)\<rparr>)))"
proof -
  let ?st2 = "(snd (sweep reg deps st))\<lparr>calls := (calls st)(n := Suc (calls st n))\<rparr>"
  have c: "counted n body kw (snd (sweep reg deps st)) = (Inr v, ?st2)"
    using assms(5) sweep_frame [of reg deps st] by (simp add: counted_def)
  have r: "\<forall>d\<in>set deps. attrs ?st2 d \<noteq> None"
    using sweep_ok_resolves [OF assms(2)] sweep_frame [of reg deps st] by simp
  from compute_computes [where func = "counted n body", OF assms(1-4) c r] show ?thesis by simp
qed

lemma counted_value:
  assumes "depends reg name = Some deps" "fst (sweep reg deps st) = None"
    "\<not> (kw_get (kw_return_saved kw) \<and> saved_get (saved st) name \<noteq> PyNone
        \<and> \<not> kw_get (kw_recompute kw))"
    "saved_get (saved (snd (sweep reg deps st))) name = PyNone \<or> kw_get (kw_recompute kw)"
  shows "fst (compute_or_return_saved reg name (counted n body) kw st)
     = map_sum id freeze (body kw (snd (sweep reg deps st)))"
    and "calls (snd (compute_or_return_saved reg name (counted n body) kw st))
     = (calls st)(n := Suc (calls st n))"
    and "\<And>v. body kw (snd (sweep reg deps st)) = Inr v \<Longrightarrow>
      saved (snd (compute_or_return_saved reg name (counted n body) kw st)) name
        = Some (freeze v)"
proof -
  show "fst (compute_or_return_saved reg name (counted n body) kw st)
     = map_sum id freeze (body kw (snd (sweep reg deps st)))"
  proof (cases "body kw (snd (sweep reg deps st))")
    case (Inl e)
    from counted_raises [where body = body, OF assms Inl] Inl show ?thesis by simp
  next
    case (Inr v)
    from counted_computes [where body = body, OF assms Inr] Inr show ?thesis by simp
  qed
  show "calls (snd (compute_or_return_saved reg name (counted n body) kw st))
     = (calls st)(n := Suc (calls st n))"
  proof (cases "body kw (snd (sweep reg deps st))")
    case (Inl e)
    from counted_raises [where body = body, OF assms Inl] show ?thesis by simp
  next
    case (Inr v)
    from counted_computes [where body = body, OF assms Inr] show ?thesis by (simp add: clear_frame)
  qed
  fix v assume "body kw (snd (sweep reg deps st)) = Inr v"
  from counted_computes [where body = body, OF assms this]
  show "saved (snd (compute_or_return_saved reg name (counted n body) kw st)) name
        = Some (freeze v)" by (simp add: clear_frame)
qed


lemma counted_saved_other:
  assumes "depends reg name = Some deps" "fst (sweep reg deps st) = None"
    "\<not> (kw_get (kw_return_saved kw) \<and> saved_get (saved st) name \<noteq> PyNone
        \<and> \<not> kw_get (kw_recompute kw))"
    "k \<noteq> name"
  shows "saved (snd (compute_or_return_saved reg name (counted n body) kw st)) k
     = saved (snd (sweep reg deps st)) k"
proof (cases "saved_get (saved (snd (sweep reg deps st))) name = PyNone \<or> kw_get (kw_recompute kw)")
  case False
  then show ?thesis
    using compute_hit [where func = "counted n body", OF assms(1,2,3)] by simp
next
  case True
  show ?thesis
  proof (cases "body kw (snd (sweep reg deps st))")
    case (Inl e)
    from counted_raises [where body = body, OF assms(1,2,3) True Inl] show ?thesis by simp
  next
    case (Inr v)
    from counted_computes [where body = body, OF assms(1,2,3) True Inr] assms(4)
    show ?thesis by (simp add: clear_frame)
  qed
qed

section \<open>Mutators and flags\<close>

lemma set_modified_frame:
  "attrs (set_modified a st) = attrs st \<and> saved (set_modified a st) = saved st \<and>
   calls (set_modified a st) = calls st \<and> bufs (set_modified a st) = bufs st \<and>
   fresh (set_modified a st) = fresh st"
  by (simp add: set_modified_def Let_def split: option.splits)

lemma set_modified_self: "modified (heap (set_modified a st) a)"
  by (simp add: set_modified_def Let_def split: option.splits)

lemma set_modified_source:
  "source (heap st a) = Some s \<Longrightarrow> modified (heap (set_modified a st) s)"
  by (simp add: set_modified_def Let_def)

lemma set_modified_keeps:
  "modified (heap st b) \<Longrightarrow> modified (heap (set_modified a st) b)"
  by (simp add: set_modified_def Let_def split: option.splits)

lemma set_modified_fields:
  "source (heap (set_modified a st) b) = source (heap st b) \<and>
   mutable (heap (set_modified a st) b) = mutable (heap st b) \<and>
   buf (heap (set_modified a st) b) = buf (heap st b) \<and>
   offset (heap (set_modified a st) b) = offset (heap st b) \<and>
   tshape (heap (set_modified a st) b) = tshape (heap st b)"
  by (simp add: set_modified_def Let_def split: option.splits)

lemma base_method_heap: "heap (snd (base_method m a eff st)) = heap st"
  by (simp add: base_method_def write_data_def Let_def split: sum.splits)


lemma inplace_heap: "heap (snd (inplace m a eff st)) = heap (set_modified a st)"
  by (simp add: inplace_def base_method_heap)


lemma inplace_read_only:
  "\<not> mutable (heap st a) \<Longrightarrow> m \<noteq> IDiv \<Longrightarrow> m \<noteq> SetSlice \<Longrightarrow>
   inplace m a eff st = (Some ValueError, set_modified a st)"
  by (simp add: inplace_def base_method_def set_modified_fields)

section \<open>The example inputs, evaluated\<close>

lemma ex_made_eq:
  "ex_made = \<lparr>heap = (heap init_state)(0 := \<lparr>modified = True, source = None, mutable = True,
        buf = 0, offset = 0, tshape = [3]\<rparr>),
      bufs = (bufs init_state)(0 := [1, 2, 3]), fresh = 1, attrs = Map.empty, saved = Map.empty,
      calls = (\<lambda>_. 0)\<rparr>"
  by (simp add: ex_made_def make_tracked_array_def np_ascontiguousarray_def alloc_def
      finalize_source_def init_state_def numeral_3_eq_3)

lemma ex_reg_eq:
  "depends ex_reg = [''f'' \<mapsto> [''x''], ''g'' \<mapsto> [''x'']] \<and>
   inv_depends ex_reg = [''x'' \<mapsto> [''f'', ''g'']]"
  by (simp add: ex_reg_def register_all_def depends_on_def add_inverse_def get_list_def
      empty_registry_def)

lemma ex_holder_eq:
  "attrs ex_holder = [''x'' \<mapsto> 0] \<and> saved ex_holder = Map.empty \<and> calls ex_holder = (\<lambda>_. 0)
   \<and> modified (heap ex_holder 0) \<and> source (heap ex_holder 0) = None \<and> mutable (heap ex_holder 0)"
  by (simp add: ex_holder_def ex_made_eq)

lemma ex_reg_depends:
  "depends (register_all [(''f'', [''x'']), (''g'', [''x''])]) ''f'' = Some [''x''] \<and>
   depends (register_all [(''f'', [''x'']), (''g'', [''x''])]) ''g'' = Some [''x'']"
  using ex_reg_eq by (simp add: ex_reg_def)

lemma kw_simps:
  "kw_get (kw_return_saved no_kwargs) = False" "kw_get (kw_recompute no_kwargs) = False"
  "kw_get (kw_return_saved kw_saved) = True" "kw_get (kw_recompute kw_saved) = False"
  by (simp_all add: no_kwargs_def kw_saved_def kw_get_def)

text \<open>The example runs, evaluated.\<close>

lemmas run_defs =
  compute_or_return_saved_def ex_reg_eq ex_holder_def ex_made_eq saved_get_def holder_get_def
  evict_def ex_f_def ex_g_def ex_none_def counted_def freeze_def init_state_def Let_def kw_simps

lemma ex_first_call:
  "compute_or_return_saved ex_reg ''f'' ex_f no_kwargs ex_holder =
     (Inr (PyObj 7),
      ex_holder\<lparr>heap := (heap ex_holder)(0 := (heap ex_holder 0)\<lparr>modified := False\<rparr>),
        saved := [''f'' \<mapsto> PyObj 7, ''g'' \<mapsto> PyNone],
        calls := (\<lambda>_. 0)(''f'' := 1)\<rparr>)"
  by (simp add: run_defs fun_upd_twist)

section \<open>ComputedData: return\_saved\<close>

lemma saved_get_none: "svd k = Some PyNone \<Longrightarrow> saved_get svd k = PyNone"
  by (simp add: saved_get_def holder_get_def)

lemma sweep_keeps_pynone:
  "saved_get (saved st) k = PyNone \<Longrightarrow> saved_get (saved (snd (sweep reg ds st))) k = PyNone"
  using sweep_saved_cases [of reg ds st k]
  by (auto simp: saved_get_def holder_get_def split: option.splits)

lemma registered_sweep_ok:
  assumes "depends (register_all regs) name = Some deps" "\<forall>d\<in>set deps. attrs st d \<noteq> None"
  shows "fst (sweep (register_all regs) deps st) = None"
proof (rule sweep_ok, rule ballI)
  fix d assume d: "d \<in> set deps"
  from register_all_wf [of regs] assms(1) d
  have "inv_depends (register_all regs) d \<noteq> None" unfolding wf_registry_def by blast
  with assms(2) d show "attrs st d \<noteq> None \<and> inv_depends (register_all regs) d \<noteq> None" by simp
qed

lemma registered_sweep_evicts:
  assumes "depends (register_all regs) name = Some deps" "\<forall>d\<in>set deps. attrs st d \<noteq> None"
    "x \<in> set deps" "attrs st x = Some a" "modified (heap st a)"
    "depends (register_all regs) k = Some dk" "x \<in> set dk"
  shows "saved (snd (sweep (register_all regs) deps st)) k = Some PyNone"
proof -
  from register_all_wf [of regs] assms(6,7) obtain invs where
    i: "inv_depends (register_all regs) x = Some invs" "k \<in> set invs"
    unfolding wf_registry_def by blast
  from sweep_evicts [OF registered_sweep_ok [OF assms(1,2)] assms(3,4,5) i] show ?thesis .
qed




section \<open>ComputedData: two operations on one attribute\<close>





text \<open>
  C2 as stated fails when the computation of \<open>g\<close> itself evaluates \<open>f\<close>. After \<open>f()\<close>,
  \<open>x += 1\<close> and \<open>g()\<close>, the computation of \<open>f\<close> has run twice, the second time inside
  \<open>g()\<close>; the call of \<open>f\<close> that follows returns the cached value and leaves the state,
  call counter included, as it is.
\<close>

theorem nested_evaluation_counterexample:
  "calls ex_nested_run ''f'' = 2 \<and> calls ex_nested_run ''g'' = 1 \<and>
   compute_or_return_saved ex_reg ''f'' ex_f no_kwargs ex_nested_run
     = (Inr (PyObj 7), ex_nested_run)"
  by (simp add: ex_nested_run_def ex_g_nested_def ex_first_call inplace_def base_method_def
      set_modified_def write_data_def data_of_def ex_incr_def run_defs)




section \<open>ComputedData: eviction\<close>

text \<open>
  C10. An eviction stores \<open>None\<close> under the key and keeps the key: when the sweep of a
  call finds a dependee \<open>x\<close> modified, every operation \<open>k\<close> that depends on \<open>x\<close> is after
  the sweep still among the keys, and direct indexing returns \<open>None\<close> for it without
  raising; for another operation than the one called this is still so after the call,
  when the call was made without \<open>return_saved\<close> and its computation only reads the
  holder. And since \<open>None\<close> is also what "nothing cached" reads as, an operation whose
  computation returns \<open>None\<close> is computed again by every call, whatever the flags: the
  call returns \<open>None\<close>, the computation has run once more, and what is saved afterwards
  is \<open>None\<close> again, so that the next call finds the same.
\<close>

theorem eviction_keeps_key_none_never_cached:
  "(depends (register_all regs) name = Some deps \<and> (\<forall>d\<in>set deps. attrs st d \<noteq> None) \<and>
    x \<in> set deps \<and> attrs st x = Some a \<and> modified (heap st a) \<and>
    depends (register_all regs) k = Some dk \<and> x \<in> set dk \<longrightarrow>
      k \<in> holder_keys (saved (snd (sweep (register_all regs) deps st))) \<and>
      holder_getitem (saved (snd (sweep (register_all regs) deps st))) k = Inr PyNone \<and>
      (k \<noteq> name \<and> \<not> kw_get (kw_return_saved kw) \<longrightarrow>
         k \<in> holder_keys (saved (snd (compute_or_return_saved (register_all regs) name
                  (counted n body) kw st))) \<and>
         holder_getitem (saved (snd (compute_or_return_saved (register_all regs) name
                  (counted n body) kw st))) k = Inr PyNone)) \<and>
   (depends (register_all regs) name = Some deps \<and> (\<forall>d\<in>set deps. attrs st d \<noteq> None) \<and>
    (\<forall>s. body kw s = Inr PyNone) \<and> saved_get (saved st) name = PyNone \<longrightarrow>
      fst (compute_or_return_saved (register_all regs) name (counted n body) kw st) = Inr PyNone \<and>
      calls (snd (compute_or_return_saved (register_all regs) name (counted n body) kw st)) n
        = Suc (calls st n) \<and>
      saved (snd (compute_or_return_saved (register_all regs) name (counted n body) kw st)) name
        = Some PyNone \<and>
      saved_get (saved (snd (compute_or_return_saved (register_all regs) name (counted n body)
                               kw st))) name = PyNone)"
proof -
  let ?reg = "register_all regs"
  let ?R = "compute_or_return_saved ?reg name (counted n body) kw st"
  have part1: "k \<in> holder_keys (saved (snd (sweep ?reg deps st))) \<and>
      holder_getitem (saved (snd (sweep ?reg deps st))) k = Inr PyNone \<and>
      (k \<noteq> name \<and> \<not> kw_get (kw_return_saved kw) \<longrightarrow>
         k \<in> holder_keys (saved (snd ?R)) \<and> holder_getitem (saved (snd ?R)) k = Inr PyNone)"
    if h: "depends ?reg name = Some deps \<and> (\<forall>d\<in>set deps. attrs st d \<noteq> None) \<and>
      x \<in> set deps \<and> attrs st x = Some a \<and> modified (heap st a) \<and>
      depends ?reg k = Some dk \<and> x \<in> set dk"
  proof -
    have s: "saved (snd (sweep ?reg deps st)) k = Some PyNone"
      using registered_sweep_evicts [of regs name deps st x a k dk] h by blast
    have ok: "fst (sweep ?reg deps st) = None" using registered_sweep_ok h by blast
    have "saved (snd ?R) k = Some PyNone" if "k \<noteq> name \<and> \<not> kw_get (kw_return_saved kw)"
      using counted_saved_other [of ?reg name deps st kw k n body] h ok s that by simp
    with s show ?thesis by (auto simp: holder_keys_def holder_getitem_def)
  qed
  have part2: "fst ?R = Inr PyNone \<and> calls (snd ?R) n = Suc (calls st n) \<and>
      saved (snd ?R) name = Some PyNone \<and> saved_get (saved (snd ?R)) name = PyNone"
    if h: "depends ?reg name = Some deps \<and> (\<forall>d\<in>set deps. attrs st d \<noteq> None) \<and>
      (\<forall>s. body kw s = Inr PyNone) \<and> saved_get (saved st) name = PyNone"
  proof -
    have d: "depends ?reg name = Some deps" using h by simp
    have ok: "fst (sweep ?reg deps st) = None" using registered_sweep_ok h by blast
    have early: "\<not> (kw_get (kw_return_saved kw) \<and> saved_get (saved st) name \<noteq> PyNone
        \<and> \<not> kw_get (kw_recompute kw))" using h by simp
    have none: "saved_get (saved (snd (sweep ?reg deps st))) name = PyNone
        \<or> kw_get (kw_recompute kw)"
      using h sweep_keeps_pynone by blast
    have b: "body kw (snd (sweep ?reg deps st)) = Inr PyNone" using h by simp
    note v = counted_value [where body = body and n = n, OF d ok early none]
    have 1: "fst ?R = Inr PyNone" using v(1) b by (simp add: freeze_def)
    have 2: "calls (snd ?R) n = Suc (calls st n)" using v(2) by simp
    have 3: "saved (snd ?R) name = Some PyNone" using v(3) [OF b] by (simp add: freeze_def)
    from 1 2 3 show ?thesis by (simp add: saved_get_none)
  qed
  from part1 part2 show ?thesis by blast
qed

lemma ex_none_once_eq:
  "attrs ex_none_once = [''x'' \<mapsto> 0] \<and> saved ex_none_once ''f'' = Some PyNone \<and>
   calls ex_none_once ''f'' = 1"
  by (simp add: ex_none_once_def run_defs)

theorem eviction_keeps_key_none_never_cached_witness:
  "''g'' \<in> holder_keys (saved (snd (sweep (register_all [(''f'', [''x'']), (''g'', [''x''])])
        [''x''] ex_holder))) \<and>
   holder_getitem (saved (snd (compute_or_return_saved
        (register_all [(''f'', [''x'']), (''g'', [''x''])]) ''f'' ex_f no_kwargs ex_holder))) ''g''
     = Inr PyNone \<and>
   calls ex_none_once ''f'' = 1 \<and>
   fst (compute_or_return_saved (register_all [(''f'', [''x'']), (''g'', [''x''])]) ''f''
          ex_none kw_saved ex_none_once) = Inr PyNone \<and>
   calls (snd (compute_or_return_saved (register_all [(''f'', [''x'']), (''g'', [''x''])]) ''f''
          ex_none kw_saved ex_none_once)) ''f'' = 2"
proof -
  let ?regs = "[(''f'', [''x'']), (''g'', [''x''])]"
  have d: "depends (register_all ?regs) ''f'' = Some [''x'']"
    "depends (register_all ?regs) ''g'' = Some [''x'']"
    using ex_reg_depends by simp_all
  have x: "attrs ex_holder ''x'' = Some 0" and m: "modified (heap ex_holder 0)"
    using ex_holder_eq by simp_all
  have r: "\<forall>d\<in>set [''x'']. attrs ex_holder d \<noteq> None" using x by simp
  have r': "\<forall>d\<in>set [''x'']. attrs ex_none_once d \<noteq> None" using ex_none_once_eq by simp
  have s: "saved_get (saved ex_none_once) ''f'' = PyNone"
    using ex_none_once_eq by (simp add: saved_get_none)
  note T = eviction_keeps_key_none_never_cached
  from T [where regs = ?regs and name = "''f''" and deps = "[''x'']" and st = ex_holder
      and x = "''x''" and a = 0 and k = "''g''" and dk = "[''x'']" and kw = no_kwargs
      and n = "''f''" and body = "\<lambda>kw st. Inr (PyObj 7)", THEN conjunct1] d x m r
  have 1: "''g'' \<in> holder_keys (saved (snd (sweep (register_all ?regs) [''x''] ex_holder))) \<and>
   holder_getitem (saved (snd (compute_or_return_saved
        (register_all ?regs) ''f'' ex_f no_kwargs ex_holder))) ''g'' = Inr PyNone"
    by (simp add: kw_simps ex_f_def)
  from T [where regs = ?regs and name = "''f''" and deps = "[''x'']" and st = ex_none_once
      and kw = kw_saved and n = "''f''" and body = "\<lambda>kw st. Inr PyNone", THEN conjunct2] d r' s
  have 2: "fst (compute_or_return_saved (register_all ?regs) ''f''
          ex_none kw_saved ex_none_once) = Inr PyNone \<and>
   calls (snd (compute_or_return_saved (register_all ?regs) ''f''
          ex_none kw_saved ex_none_once)) ''f'' = 2"
    using ex_none_once_eq by (simp add: ex_none_def)
  from 1 2 ex_none_once_eq show ?thesis by simp
qed

section \<open>TrackedArray: mutators, views and slices\<close>

lemma view_eq:
  "view b st = (fresh st,
     st\<lparr>heap := (heap st)(fresh st :=
           \<lparr>modified = True,
            source = Some (case source (heap st b) of None \<Rightarrow> b | Some r \<Rightarrow> r),
            mutable = False, buf = buf (heap st b), offset = offset (heap st b),
            tshape = tshape (heap st b)\<rparr>),
        fresh := Suc (fresh st)\<rparr>)"
  by (simp add: view_def alloc_def finalize_source_def split: option.splits)

text \<open>
  C3, as the code has it. Each of the sixteen overridden mutators, whether the write
  then succeeds or is refused, leaves the array flagged modified and, when the array has
  a source, the source flagged modified. The source of a view of \<open>b\<close> is \<open>b\<close> when \<open>b\<close> has
  no source, and the source of \<open>b\<close> otherwise: a mutator on the view flags that root.
\<close>

theorem mutators_flag_array_and_source:
  "modified (heap (snd (inplace m a eff st)) a) \<and>
   (source (heap st a) = Some s \<longrightarrow> modified (heap (snd (inplace m a eff st)) s)) \<and>
   (view b st = (v, st') \<longrightarrow>
      source (heap st' v) = Some (case source (heap st b) of None \<Rightarrow> b | Some r \<Rightarrow> r) \<and>
      modified (heap (snd (inplace m v eff st')) v) \<and>
      modified (heap (snd (inplace m v eff st'))
                  (case source (heap st b) of None \<Rightarrow> b | Some r \<Rightarrow> r)))"
proof (intro conjI impI)
  show "modified (heap (snd (inplace m a eff st)) a)"
    by (simp add: inplace_heap set_modified_self)
  show "modified (heap (snd (inplace m a eff st)) s)" if "source (heap st a) = Some s"
    using that by (simp add: inplace_heap set_modified_source)
next
  assume v: "view b st = (v, st')"
  let ?r = "case source (heap st b) of None \<Rightarrow> b | Some r \<Rightarrow> r"
  from v show src: "source (heap st' v) = Some ?r" by (auto simp: view_eq)
  show "modified (heap (snd (inplace m v eff st')) v)"
    by (simp add: inplace_heap set_modified_self)
  from src show "modified (heap (snd (inplace m v eff st')) ?r)"
    by (simp add: inplace_heap set_modified_source)
qed

lemma ex_view_eq:
  "view 0 ex_made = (1, ex_made\<lparr>heap := (heap ex_made)(1 :=
        \<lparr>modified = True, source = Some 0, mutable = False, buf = 0, offset = 0, tshape = [3]\<rparr>),
      fresh := 2\<rparr>)"
  by (simp add: view_eq ex_made_eq)

theorem mutators_flag_array_and_source_witness:
  "view 0 ex_made = (1, snd (view 0 ex_made)) \<and>
   source (heap (snd (view 0 ex_made)) 1) = Some 0 \<and>
   modified (heap (snd (inplace IAdd 1 ex_incr (snd (view 0 ex_made)))) 1) \<and>
   modified (heap (snd (inplace IAdd 1 ex_incr (snd (view 0 ex_made)))) 0)"
proof -
  have v: "view 0 ex_made = (1, snd (view 0 ex_made))" by (simp add: ex_view_eq)
  have s: "source (heap ex_made 0) = None" by (simp add: ex_made_eq)
  from mutators_flag_array_and_source [where m = IAdd and eff = ex_incr and b = 0
      and st = ex_made and v = 1 and st' = "snd (view 0 ex_made)"] v s
  show ?thesis by simp
qed

text \<open>
  A view made writeable again keeps its source: a write through it succeeds, changes the
  items of the array it was taken from, and flags that array.
\<close>

lemma unlocked_view_write_propagates:
  "fst (inplace IAdd 1 ex_incr (set_mutable 1 True (snd (view 0 ex_made)))) = None \<and>
   data_of (snd (inplace IAdd 1 ex_incr (set_mutable 1 True (snd (view 0 ex_made))))) 0 = [2, 3, 4] \<and>
   modified (heap (snd (inplace IAdd 1 ex_incr (set_mutable 1 True (snd (view 0 ex_made))))) 0)"
  by (simp add: view_eq ex_made_eq set_mutable_def inplace_def base_method_def set_modified_def
      ex_incr_def data_of_def write_data_def size_of_def enumerate_eq_zip upt_rec init_state_def
      Let_def)

text \<open>
  C3 as stated fails for a view of a view. Object 1 is a view of the array 0 and is the
  attribute \<open>x\<close> of a holder; a call of \<open>f\<close> clears its flag. Object 2 is then created
  as a view of object 1, and \<open>+= 1\<close> on object 2 leaves object 1 not flagged.
\<close>

theorem view_of_view_counterexample:
  "fst (view 1 (snd (compute_or_return_saved ex_reg ''f'' ex_f no_kwargs ex_view_holder))) = 2 \<and>
   \<not> modified (heap (snd (inplace IAdd 2 ex_incr
        (snd (view 1 (snd (compute_or_return_saved ex_reg ''f'' ex_f no_kwargs
                              ex_view_holder)))))) 1)"
  by (simp add: ex_view_holder_def ex_view_eq view_eq inplace_def base_method_def
      set_modified_def run_defs)

text \<open>
  C9. An element assignment on a write-protected tracked array raises the
  write-protection error of numpy (\<open>ValueError\<close>) and changes no buffer, and the state it
  leaves is the one after \<open>_set_modified\<close>: the array is flagged modified, and so is its
  source when it has one.
\<close>

theorem refused_write_still_flags:
  "\<not> mutable (heap st v) \<Longrightarrow>
   inplace SetItem v eff st = (Some ValueError, set_modified v st) \<and>
   modified (heap (set_modified v st) v) \<and>
   (source (heap st v) = Some b \<longrightarrow> modified (heap (set_modified v st) b)) \<and>
   bufs (set_modified v st) = bufs st"
  by (simp add: inplace_read_only set_modified_self set_modified_source set_modified_frame)

theorem refused_write_still_flags_witness:
  "\<not> mutable (heap (snd (view 0 ex_made)) 1) \<and> source (heap (snd (view 0 ex_made)) 1) = Some 0 \<and>
   inplace SetItem 1 ex_assign (snd (view 0 ex_made))
     = (Some ValueError, set_modified 1 (snd (view 0 ex_made))) \<and>
   modified (heap (set_modified 1 (snd (view 0 ex_made))) 1) \<and>
   modified (heap (set_modified 1 (snd (view 0 ex_made))) 0)"
proof -
  have m: "\<not> mutable (heap (snd (view 0 ex_made)) 1)" by (simp add: ex_view_eq)
  have s: "source (heap (snd (view 0 ex_made)) 1) = Some 0" by (simp add: ex_view_eq)
  from refused_write_still_flags [OF m, of ex_assign 0] m s show ?thesis by simp
qed

text \<open>
  C5 fails on the code. The slice \<open>a[0:2]\<close> of the array made by the factory is read
  through \<open>np.ndarray.__getitem__\<close>: it is object 1, it is writeable, the assignment
  \<open>[0] = 9\<close> through it raises nothing and the array itself then holds \<open>[9, 2, 3]\<close>.
\<close>

theorem slice_is_writeable:
  "fst (getitem_slice 0 0 2 ex_made) = Inr 1 \<and>
   mutable (heap (snd (getitem_slice 0 0 2 ex_made)) 1) \<and>
   fst (inplace SetItem 1 ex_assign (snd (getitem_slice 0 0 2 ex_made))) = None \<and>
   data_of (snd (inplace SetItem 1 ex_assign (snd (getitem_slice 0 0 2 ex_made)))) 0 = [9, 2, 3]"
  by (simp add: getitem_slice_def alloc_def finalize_source_def ex_made_eq Let_def inplace_def
      base_method_def set_modified_def ex_assign_def data_of_def write_data_def size_of_def
      enumerate_eq_zip upt_rec init_state_def)

text \<open>
  The method \<open>__getslice__\<close> itself, which only an explicit call reaches, does return a
  read-only array whose source is the root.
\<close>

lemma getslice_read_only:
  "getslice a start stop st = (Inr s, st') \<Longrightarrow>
   \<not> mutable (heap st' s) \<and>
   source (heap st' s) = Some (case source (heap st a) of None \<Rightarrow> a | Some r \<Rightarrow> r)"
  by (auto simp: getslice_def getitem_slice_def alloc_def finalize_source_def Let_def
      set_modified_fields split: list.splits option.splits)

text \<open>
  C6 fails on the code. Without \<open>copy\<close> the factory returns the plain array of
  \<open>np.ascontiguousarray\<close>: no tracked array is made, so there is no modified flag.
\<close>

theorem factory_without_copy_is_plain:
  "make_tracked_array (Some (Seq [Num 1, Num 2, Num 3])) None False init_state
     = (Inr (PlainArray \<lparr>shape = [3], items = [1, 2, 3], writeable = True\<rparr>), init_state)"
  by (simp add: make_tracked_array_def np_ascontiguousarray_def numeral_3_eq_3)

text \<open>
  With \<open>copy\<close> the factory does what C6 says: a new tracked array, flagged modified,
  without source and writeable; \<open>None\<close> gives an empty array, ragged input is refused.
\<close>

lemma factory_with_copy:
  "np_ascontiguousarray (case array of None \<Rightarrow> Seq [] | Some a \<Rightarrow> a) dtype = Inr arr \<Longrightarrow>
   fst (make_tracked_array array dtype True st) = Inr (TrackedRef (fresh st)) \<and>
   modified (heap (snd (make_tracked_array array dtype True st)) (fresh st)) \<and>
   source (heap (snd (make_tracked_array array dtype True st)) (fresh st)) = None \<and>
   data_of (snd (make_tracked_array array dtype True st)) (fresh st)
     = take (size_of (shape arr)) (items arr)"
  by (simp add: make_tracked_array_def alloc_def finalize_source_def data_of_def)

lemma factory_none_is_empty:
  "data_of (snd (make_tracked_array None dtype True st)) (fresh st) = [] \<and>
   tshape (heap (snd (make_tracked_array None dtype True st)) (fresh st)) = [0]"
  by (cases dtype) (simp_all add: make_tracked_array_def np_ascontiguousarray_def alloc_def
      data_of_def)

lemma factory_ragged_refused:
  "make_tracked_array (Some (Seq [Seq [Num 1, Num 2], Seq [Num 3]])) dtype copy st
     = (Inl ValueError, st)"
  by (simp add: make_tracked_array_def np_ascontiguousarray_def)

section \<open>unique\_rows: round trip\<close>

lemma bytes_determine_mod:
  assumes "\<forall>k<n. ((x::int) div 256 ^ k) mod 256 = (y div 256 ^ k) mod 256"
  shows "x mod 256 ^ n = y mod 256 ^ n"
  using assms
proof (induction n)
  case 0 then show ?case by simp
next
  case (Suc n)
  have eq: "z mod 256 ^ Suc n = 256 ^ n * (z div 256 ^ n mod 256) + z mod 256 ^ n" for z :: int
  proof -
    have "z mod 256 ^ Suc n = z mod (256 ^ n * 256)" by (simp add: mult.commute)
    also have "\<dots> = 256 ^ n * (z div 256 ^ n mod 256) + z mod 256 ^ n"
      by (rule zmod_zmult2_eq) simp
    finally show ?thesis .
  qed
  from Suc have "x mod 256 ^ n = y mod 256 ^ n" "(x div 256 ^ n) mod 256 = (y div 256 ^ n) mod 256"
    by simp_all
  then show ?case by (simp only: eq)
qed

lemma length_item_bytes: "length (item_bytes w v) = w"
  by (simp add: item_bytes_def)

lemma dtype_powers:
  assumes "0 < w"
  shows "(2::int) ^ (8 * w) = 2 * 2 ^ (8 * w - 1)" and "(256::int) ^ w = 2 ^ (8 * w)"
proof -
  from assms have "8 * w = Suc (8 * w - 1)" by simp
  then have "(2::int) ^ (8 * w) = 2 ^ Suc (8 * w - 1)" by simp
  then show "(2::int) ^ (8 * w) = 2 * 2 ^ (8 * w - 1)" by simp
  show "(256::int) ^ w = 2 ^ (8 * w)" by (simp add: power_mult)
qed

lemma cast_item_fits: "0 < w \<Longrightarrow> fits_dtype w (cast_item w v)"
proof -
  assume w: "0 < w"
  let ?M = "(2::int) ^ (8 * w)" and ?H = "(2::int) ^ (8 * w - 1)"
  have M: "?M = 2 * ?H" by (rule dtype_powers(1) [OF w])
  have "0 \<le> (v + ?H) mod ?M" "(v + ?H) mod ?M < ?M" by simp_all
  then show ?thesis unfolding fits_dtype_def cast_item_def using M by linarith
qed

lemma cast_item_id: "0 < w \<Longrightarrow> fits_dtype w v \<Longrightarrow> cast_item w v = v"
proof -
  assume w: "0 < w" and f: "fits_dtype w v"
  let ?M = "(2::int) ^ (8 * w)" and ?H = "(2::int) ^ (8 * w - 1)"
  have M: "?M = 2 * ?H" by (rule dtype_powers(1) [OF w])
  have "0 \<le> v + ?H" "v + ?H < ?M" using f M unfolding fits_dtype_def by linarith+
  then have "(v + ?H) mod ?M = v + ?H" by simp
  then show ?thesis by (simp add: cast_item_def)
qed

lemma item_bytes_inj:
  assumes w: "0 < w" and f: "fits_dtype w v" "fits_dtype w v'"
    and eq: "item_bytes w v = item_bytes w v'"
  shows "v = v'"
proof -
  let ?M = "(2::int) ^ (8 * w)" and ?H = "(2::int) ^ (8 * w - 1)"
  have "\<forall>k<w. nat ((v div 256 ^ k) mod 256) = nat ((v' div 256 ^ k) mod 256)"
    using eq unfolding item_bytes_def by simp
  then have "\<forall>k<w. (v div 256 ^ k) mod 256 = (v' div 256 ^ k) mod 256"
    by (metis pos_mod_sign zero_less_numeral int_nat_eq)
  then have "v mod 256 ^ w = v' mod 256 ^ w" by (rule bytes_determine_mod)
  then have "v mod ?M = v' mod ?M" by (simp add: dtype_powers(2) [OF w])
  then have "(v + ?H) mod ?M = (v' + ?H) mod ?M" by (rule mod_add_cong) simp
  then have "cast_item w v = cast_item w v'" by (simp add: cast_item_def)
  then show ?thesis using cast_item_id [OF w] f by simp
qed

lemma row_view_inj:
  "length r1 = length r2 \<Longrightarrow> 0 < w \<Longrightarrow> \<forall>v\<in>set r1 \<union> set r2. fits_dtype w v \<Longrightarrow>
   row_view w r1 = row_view w r2 \<Longrightarrow> r1 = r2"
proof (induction r1 r2 rule: list_induct2)
  case Nil then show ?case by simp
next
  case (Cons x xs y ys)
  from Cons.prems have "item_bytes w x @ row_view w xs = item_bytes w y @ row_view w ys"
    by (simp add: row_view_def)
  then have "item_bytes w x = item_bytes w y" "row_view w xs = row_view w ys"
    by (simp_all add: length_item_bytes)
  moreover have "fits_dtype w x" "fits_dtype w y" using Cons.prems by simp_all
  ultimately show ?case using Cons.IH Cons.prems item_bytes_inj [of w x y] by auto
qed

lemma first_index_found:
  "k \<in> set xs \<Longrightarrow> first_index xs k < length xs \<and> xs ! first_index xs k = k"
  by (induction xs) auto

lemma rows_of_nth: "i < n \<Longrightarrow> rows_of n m xs ! i = take m (drop (i * m) xs)"
  by (simp add: rows_of_def)

lemma rows_of_length: "length (rows_of n m xs) = n"
  by (simp add: rows_of_def)

lemma rows_of_row_length:
  assumes "length xs = n * m" "i < n"
  shows "length (rows_of n m xs ! i) = m"
proof -
  from assms(2) have "Suc i \<le> n" by simp
  then have "Suc i * m \<le> n * m" by (rule mult_le_mono1)
  then have "m \<le> n * m - i * m" by simp
  then show ?thesis using assms by (simp add: rows_of_nth)
qed

lemma rows_of_row_items: "i < n \<Longrightarrow> set (rows_of n m xs ! i) \<subseteq> set xs"
  using set_take_subset [of m "drop (i * m) xs"] set_drop_subset [of "i * m" xs]
  by (auto simp: rows_of_nth)


lemma inverse_reconstructs:
  fixes xs :: "int list"
  assumes len: "length xs = n * m" and w: "0 < w" and fit: "\<forall>v\<in>set xs. fits_dtype w v"
  defines "rows \<equiv> rows_of n m xs"
  defines "keys \<equiv> map (row_view w) rows"
  defines "u \<equiv> sort (remdups keys)"
  defines "vals \<equiv> map (\<lambda>i. rows ! i) (map (first_index keys) u)"
  defines "ivs \<equiv> map (first_index u) keys"
  shows "length ivs = n \<and> (\<forall>i\<in>set ivs. i < length vals) \<and> map (\<lambda>i. vals ! i) ivs = rows"
proof -
  have ln: "length rows = n" "length keys = n" by (simp_all add: rows_def keys_def rows_of_length)
  have su: "set u = set keys" by (simp add: u_def)
  have lv: "length vals = length u" by (simp add: vals_def)
  have step: "first_index u (keys ! j) < length u \<and> vals ! first_index u (keys ! j) = rows ! j"
    if j: "j < n" for j
  proof -
    let ?p = "first_index u (keys ! j)"
    have "keys ! j \<in> set u" using su j ln by simp
    then have p: "?p < length u" "u ! ?p = keys ! j" by (simp_all add: first_index_found)
    let ?q = "first_index keys (u ! ?p)"
    have "keys ! j \<in> set keys" using j ln by simp
    then have q: "?q < length keys" "keys ! ?q = keys ! j"
      using first_index_found [of "keys ! j" keys] p(2) by simp_all
    have "vals ! ?p = rows ! ?q" using p(1) by (simp add: vals_def)
    moreover have "rows ! ?q = rows ! j"
    proof (rule row_view_inj [OF _ w])
      show "length (rows ! ?q) = length (rows ! j)"
        using q(1) j ln len by (simp add: rows_def rows_of_row_length)
      show "row_view w (rows ! ?q) = row_view w (rows ! j)"
        using q j ln by (simp add: keys_def)
      show "\<forall>v\<in>set (rows ! ?q) \<union> set (rows ! j). fits_dtype w v"
        using fit rows_of_row_items [of ?q n m xs] rows_of_row_items [of j n m xs] q(1) j ln
        by (auto simp: rows_def)
    qed
    ultimately show ?thesis using p(1) by simp
  qed
  have 1: "length ivs = n" by (simp add: ivs_def ln)
  have 2: "\<forall>i\<in>set ivs. i < length vals"
  proof
    fix i assume "i \<in> set ivs"
    then obtain j where "j < n" "i = first_index u (keys ! j)"
      unfolding ivs_def using ln by (auto simp: in_set_conv_nth)
    then show "i < length vals" using step lv by simp
  qed
  have 3: "map (\<lambda>i. vals ! i) ivs = rows"
  proof (rule nth_equalityI)
    show "length (map (\<lambda>i. vals ! i) ivs) = length rows" using 1 ln by simp
    fix j assume "j < length (map (\<lambda>i. vals ! i) ivs)"
    then have j: "j < n" using 1 by simp
    then show "map (\<lambda>i. vals ! i) ivs ! j = rows ! j"
      using step [OF j] ln by (simp add: ivs_def)
  qed
  from 1 2 3 show ?thesis by blast
qed

lemma unique_rows_default:
  assumes "make_c_contiguous inp (Some w) = Inr (Some arr)" "shape arr = [n, m]" "0 < m" "0 < w"
  shows "unique_rows w inp True True True None =
     Inr [RowArray (map (\<lambda>i. rows_of n m (items arr) ! i)
                  (map (first_index (map (row_view w) (rows_of n m (items arr))))
                     (sort (remdups (map (row_view w) (rows_of n m (items arr))))))),
          IndexArray (map (first_index (map (row_view w) (rows_of n m (items arr))))
                     (sort (remdups (map (row_view w) (rows_of n m (items arr)))))),
          IndexArray (map (first_index (sort (remdups (map (row_view w) (rows_of n m (items arr))))))
                     (map (row_view w) (rows_of n m (items arr)))),
          IndexArray (map (count_list (map (row_view w) (rows_of n m (items arr))))
                     (sort (remdups (map (row_view w) (rows_of n m (items arr))))))]"
  using assms by (simp add: unique_rows_def np_unique_def Let_def)





text \<open>
  C8 as stated fails for an integer that is not a value of the integer dtype: under a
  32-bit dtype the 64-bit array \<open>[[2 ** 32 + 1, 0]]\<close> is cast first, and
  \<open>values[inverse]\<close> is \<open>[[1, 0]]\<close>, not the original row. It also fails for an array
  without columns, for which nothing is returned.
\<close>

theorem unique_rows_counterexample:
  "unique_rows 4 ex_wide True True True None
     = Inr [RowArray [[1, 0]], IndexArray [0], IndexArray [0], IndexArray [1]] \<and>
   [[1, 0]] ! 0 \<noteq> [4294967297, 0 :: int] \<and>
   unique_rows 4 ex_no_columns True True True None = Inl ValueError"
proof -
  have 1: "unique_rows 4 ex_wide True True True None
     = Inr [RowArray [[1, 0]], IndexArray [0], IndexArray [0], IndexArray [1]]"
    by code_simp
  have 2: "unique_rows 4 ex_no_columns True True True None = Inl ValueError"
    by code_simp
  from 1 2 show ?thesis by simp
qed

text \<open>
  The same for nested sequences of Python integers, which \<open>np.ascontiguousarray\<close> casts
  to the dtype: \<open>values[inverse]\<close> is the nested list after the cast.
\<close>

lemma length_flatten:
  "shape_of al = Some shp \<Longrightarrow> length (flatten al) = prod_list shp"
proof (induction al arbitrary: shp rule: shape_of.induct)
  case (1 v) then show ?case by simp
next
  case 2 then show ?case by auto
next
  case (3 x xs)
  from "3.prems" obtain s where s: "shape_of x = Some s" "list_all (\<lambda>y. shape_of y = Some s) xs"
    "shp = Suc (length xs) # s"
    by (auto split: option.splits if_splits)
  have x: "length (flatten x) = prod_list s" using "3.IH"(1) s(1) by simp
  have "\<forall>y\<in>set xs. length (flatten y) = prod_list s"
    using "3.IH"(2) s by (auto simp: list_all_iff)
  then have "length (concat (map flatten xs)) = length xs * prod_list s"
    by (induction xs) (simp_all add: length_concat)
  then show ?case using x s(3) by simp
qed

lemma unique_rows_nested_round_trip:
  assumes "0 < w" "shape_of al = Some [n, m]" "0 < m" "list_all (fits_dtype 8) (flatten al)"
  shows "\<exists>vals idx ivs cnt.
     unique_rows w (NestedInput al) True True True None
       = Inr [RowArray vals, IndexArray idx, IndexArray ivs, IndexArray cnt] \<and>
     length ivs = n \<and> (\<forall>i\<in>set ivs. i < length vals) \<and>
     map (\<lambda>i. vals ! i) ivs = rows_of n m (map (cast_item w) (flatten al))"
proof -
  let ?arr = "\<lparr>shape = [n, m], items = map (cast_item w) (flatten al), writeable = True\<rparr>"
  have a: "make_c_contiguous (NestedInput al) (Some w) = Inr (Some ?arr)"
    using assms by (simp add: make_c_contiguous_def np_ascontiguousarray_def)
  have len: "length (items ?arr) = n * m" using length_flatten [OF assms(2)] by simp
  have fit: "\<forall>v\<in>set (items ?arr). fits_dtype w v" using assms(1) by (simp add: cast_item_fits)
  from unique_rows_default [OF a _ assms(3,1)] inverse_reconstructs [OF len assms(1) fit]
  show ?thesis by auto
qed

section \<open>DataHolder: direct access\<close>

text \<open>
  C7. Direct item assignment on a holder is always rejected (with
  \<open>NotImplementedError\<close>, the code's rejection of a direct write), whatever the stored
  items, the key and the value are, and direct indexing raises \<open>KeyError\<close> whenever the
  key is absent from the store.
\<close>

theorem holder_direct_access:
  "holder_setitem svd key val = Inl NotImplementedError \<and>
   (key \<notin> holder_keys svd \<longrightarrow> holder_getitem svd key = Inl KeyError)"
  by (auto simp: holder_setitem_def holder_getitem_def holder_keys_def split: option.splits)

theorem holder_direct_access_witness:
  "holder_setitem Map.empty ''volumes'' (PyObj 1) = Inl NotImplementedError \<and>
   ''volumes'' \<notin> holder_keys Map.empty \<and>
   holder_getitem Map.empty ''volumes'' = Inl KeyError"
  using holder_direct_access [of Map.empty "''volumes''" "PyObj 1"]
  by (simp add: holder_keys_def)

end
